theory Spec2Isabelle
  imports Complex_Main "HOL-Library.Word"
begin

unbundle bit_operations_syntax

section \<open>Errors\<close>

text \<open>
  The exceptions that the functions of \<^verbatim>\<open>metrics.py\<close> can raise. A function that can
  raise returns \<open>py_error + 'a\<close>, with \<open>Inl\<close> for the exception.
\<close>

datatype py_error = IndexError | ValueError | AttributeError | ZeroDivisionError | KeyError

section \<open>Change points\<close>

text \<open>
  \<^verbatim>\<open>max(data)\<close> raises ValueError on an empty list; otherwise it keeps the first
  largest element. Metric values are Python floats, taken here as reals.
\<close>

fun py_max :: "real list \<Rightarrow> py_error + real" where
  "py_max [] = Inl ValueError"
| "py_max (x # xs) = Inr (fold (\<lambda>y m. if y > m then y else m) xs x)"

text \<open>
  The \<^verbatim>\<open>while i < len(data)\<close> loop of \<^verbatim>\<open>change_points\<close>, on the state
  \<open>(cp, curr_cp, i)\<close>; \<^verbatim>\<open>shot_length\<close> is 30.
\<close>

function cp_loop :: "real list \<Rightarrow> real \<Rightarrow> nat list \<Rightarrow> nat \<Rightarrow> nat \<Rightarrow> nat list" where
  "cp_loop data cutoff cp curr_cp i =
     (if i < length data then
        (if data ! i \<ge> cutoff then
           cp_loop data cutoff
             (if int i - int curr_cp > 30 then cp @ [curr_cp] else cp) i (i + 1)
         else cp_loop data cutoff cp curr_cp (i + 1))
      else cp)"
  by pat_completeness auto
termination
  by (relation "measure (\<lambda>(data, cutoff, cp, curr_cp, i). length data - i)") auto

declare cp_loop.simps [simp del]

text \<open>
  \<^verbatim>\<open>change_points(data)\<close>. After the loop, \<^verbatim>\<open>cp[0]\<close> raises IndexError when the
  loop recorded nothing; \<^verbatim>\<open>cp[-1]\<close> is then read from a list that is not empty.
\<close>

definition change_points :: "real list \<Rightarrow> py_error + nat list" where
  "change_points data =
     (case py_max data of
        Inl e \<Rightarrow> Inl e
      | Inr m \<Rightarrow>
          (let cutoff = m * (3 / 10);
               cp = cp_loop data cutoff [] 0 1
           in case cp of
                [] \<Rightarrow> Inl IndexError
              | c # _ \<Rightarrow>
                  (let cp1 = (if c \<noteq> 0 then [0] @ cp else cp)
                   in if last cp1 \<noteq> length data - 1
                      then Inr (cp1 @ [length data - 1])
                      else Inr cp1)))"

section \<open>Event serializer\<close>

text \<open>
  One record of the output file. \<^verbatim>\<open>to_json\<close> writes each record with
  \<^verbatim>\<open>json.dump\<close> followed by a newline, so the list of records is the list of the
  file's lines, in order.
\<close>

record metric_event =
  timestamp :: int
  feature :: string
  val :: real
  parameters :: "(string \<times> string) list"

text \<open>Python's \<^verbatim>\<open>int(x)\<close> on a float truncates towards zero.\<close>

definition py_int :: "real \<Rightarrow> int" where
  "py_int x = (if 0 \<le> x then \<lfloor>x\<rfloor> else \<lceil>x\<rceil>)"

text \<open>
  The inner loop \<^verbatim>\<open>for each in lists[i]\<close>, on the state \<open>(li2, time_stamp)\<close>.
  \<^verbatim>\<open>features[i]\<close> is read inside the loop body and raises IndexError when the
  label is missing.
\<close>

fun to_json_group ::
  "string list \<Rightarrow> nat \<Rightarrow> real list \<Rightarrow> metric_event list \<Rightarrow> real
     \<Rightarrow> py_error + (metric_event list \<times> real)" where
  "to_json_group features i [] li2 time_stamp = Inr (li2, time_stamp)"
| "to_json_group features i (each # rest) li2 time_stamp =
     (if i < length features then
        to_json_group features i rest
          (li2 @ [\<lparr>timestamp = py_int time_stamp, feature = features ! i, val = each,
                    parameters = [(''system'', ''track1'')]\<rparr>])
          (time_stamp + 1000)
      else Inl IndexError)"

text \<open>
  The outer loop \<^verbatim>\<open>for i in range(0, len(lists))\<close>: after each group
  \<^verbatim>\<open>time_stamp\<close> is set back to \<^verbatim>\<open>copy\<close>.
\<close>

fun to_json_groups ::
  "string list \<Rightarrow> real \<Rightarrow> nat \<Rightarrow> real list list \<Rightarrow> metric_event list \<Rightarrow> real
     \<Rightarrow> py_error + metric_event list" where
  "to_json_groups features copy i [] li2 time_stamp = Inr li2"
| "to_json_groups features copy i (l # ls) li2 time_stamp =
     (case to_json_group features i l li2 time_stamp of
        Inl e \<Rightarrow> Inl e
      | Inr (li2', _) \<Rightarrow> to_json_groups features copy (i + 1) ls li2' copy)"

text \<open>
  \<^verbatim>\<open>to_json(lists, features, file_name)\<close>; \<open>now\<close> is the value of
  \<^verbatim>\<open>time.time() * 1000\<close> read at the start, a float taken here as a real. The result
  is the content of the written file, one record per line.
\<close>

definition to_json :: "real list list \<Rightarrow> string list \<Rightarrow> real \<Rightarrow> py_error + metric_event list" where
  "to_json seqs features now = to_json_groups features now 0 seqs [] now"

section \<open>Frame sources\<close>

text \<open>
  A decoded frame is an array of shape \<open>(height, width, 3)\<close> of unsigned bytes: a list of
  \<open>height * width\<close> pixels in row-major order, each with its three channel values.
\<close>

type_synonym pixel = "8 word \<times> 8 word \<times> 8 word"

record frame =
  height :: nat
  width :: nat
  pixels :: "pixel list"

definition wf_frame :: "frame \<Rightarrow> bool" where
  "wf_frame f = (length (pixels f) = height f * width f)"

text \<open>All samples of the frame buffer, in storage order.\<close>

definition frame_samples :: "frame \<Rightarrow> 8 word list" where
  "frame_samples f = concat (map (\<lambda>(c0, c1, c2). [c0, c1, c2]) (pixels f))"

text \<open>
  A video capture: the frame count it declares
  (\<^verbatim>\<open>int(video.get(CAP_PROP_FRAME_COUNT))\<close>) and the results of its successive
  \<^verbatim>\<open>read()\<close> calls, \<open>None\<close> for a frame that does not decode. Past the end of the
  list every read gives \<open>None\<close>.
\<close>

record video =
  frame_count :: int
  frames :: "frame option list"

fun video_read :: "frame option list \<Rightarrow> frame option \<times> frame option list" where
  "video_read [] = (None, [])"
| "video_read (r # rs) = (r, rs)"

definition nth_read :: "frame option list \<Rightarrow> nat \<Rightarrow> frame option" where
  "nth_read rs k = (if k < length rs then rs ! k else None)"

section \<open>Brightness\<close>

text \<open>\<^verbatim>\<open>np.sum(a, dtype=np.uint32)\<close> on unsigned bytes: a 32-bit sum that wraps.\<close>

definition np_sum_u8_u32 :: "8 word list \<Rightarrow> 32 word" where
  "np_sum_u8_u32 xs = sum_list (map ucast xs)"

definition frame_brightness :: "frame \<Rightarrow> int" where
  "frame_brightness f = uint (np_sum_u8_u32 (frame_samples f))"

text \<open>
  The loop of \<^verbatim>\<open>brightness\<close> over \<^verbatim>\<open>range(0, frame_count)\<close>. On a pixel
  buffer \<^verbatim>\<open>np.sum\<close> does not raise TypeError, so that handler has no branch here.
\<close>

fun brightness_loop :: "nat \<Rightarrow> frame option list \<Rightarrow> int list \<Rightarrow> int list" where
  "brightness_loop 0 rs li = li"
| "brightness_loop (Suc n) rs li =
     (case video_read rs of
        (None, rs') \<Rightarrow> brightness_loop n rs' (li @ [- 1])
      | (Some frame, rs') \<Rightarrow> brightness_loop n rs' (li @ [frame_brightness frame]))"

definition brightness :: "video \<Rightarrow> int list" where
  "brightness v = brightness_loop (nat (frame_count v)) (frames v) []"

section \<open>Contrast\<close>

text \<open>\<^verbatim>\<open>np.absolute\<close> on a signed 16-bit value.\<close>

definition np_abs_i16 :: "16 word \<Rightarrow> 16 word" where
  "np_abs_i16 w = (if sint w < 0 then - w else w)"

text \<open>
  \<^verbatim>\<open>np.sum(np.absolute(frame2 - frame), dtype=np.uint32)\<close> on frames widened to
  signed 16 bits. The frames of one stream have one shape; arrays of different shapes
  do not subtract, and the ValueError is not caught by the \<^verbatim>\<open>except TypeError\<close>.
\<close>

definition same_shape :: "frame \<Rightarrow> frame \<Rightarrow> bool" where
  "same_shape f g =
     (height f = height g \<and> width f = width g \<and> length (pixels f) = length (pixels g))"

definition frame_sad :: "frame \<Rightarrow> frame \<Rightarrow> int" where
  "frame_sad frame2 frame =
     uint (sum_list
       (map (\<lambda>(a, b). (scast (np_abs_i16 (ucast a - ucast b)) :: 32 word))
          (zip (frame_samples frame2) (frame_samples frame))))"

definition frame_absdiff :: "frame \<Rightarrow> frame \<Rightarrow> py_error + int" where
  "frame_absdiff frame2 frame =
     (if same_shape frame2 frame then Inr (frame_sad frame2 frame) else Inl ValueError)"

fun contrast_loop :: "nat \<Rightarrow> frame option list \<Rightarrow> frame \<Rightarrow> int list \<Rightarrow> py_error + int list" where
  "contrast_loop 0 rs frame li = Inr li"
| "contrast_loop (Suc n) rs frame li =
     (case video_read rs of
        (None, rs') \<Rightarrow> contrast_loop n rs' frame (li @ [- 1])
      | (Some frame2, rs') \<Rightarrow>
          (case frame_absdiff frame2 frame of
             Inl e \<Rightarrow> Inl e
           | Inr tot \<Rightarrow> contrast_loop n rs' frame2 (li @ [tot])))"

text \<open>
  \<^verbatim>\<open>contrast(video)\<close>. The first frame is read before the loop and
  \<^verbatim>\<open>frame.astype\<close> is called on it at once: when that read gives \<^verbatim>\<open>None\<close> the
  call raises AttributeError.
\<close>

definition contrast :: "video \<Rightarrow> py_error + int list" where
  "contrast v =
     (case video_read (frames v) of
        (None, _) \<Rightarrow> Inl AttributeError
      | (Some frame, rs) \<Rightarrow> contrast_loop (nat (frame_count v - 1)) rs frame [])"

section \<open>Histogram\<close>

text \<open>
  \<^verbatim>\<open>BINLEN = 8\<close>. A channel value is widened to 16 bits and divided by
  \<^verbatim>\<open>256 // BINLEN = 32\<close>; the dot product with \<^verbatim>\<open>[64, 8, 1]\<close> is taken in a
  wide signed integer that the values (at most 511) do not overflow.
\<close>

definition quantize :: "8 word \<Rightarrow> 16 word" where
  "quantize c = (ucast c :: 16 word) div 32"

definition pixel_bin :: "pixel \<Rightarrow> nat" where
  "pixel_bin p = (case p of (c0, c1, c2) \<Rightarrow>
     unat (quantize c0) * 64 + unat (quantize c1) * 8 + unat (quantize c2) * 1)"

text \<open>
  \<^verbatim>\<open>np.bincount(x, minlength=m)\<close>: entry \<open>b\<close> counts the occurrences of \<open>b\<close>
  in \<open>x\<close>; the result has \<open>max m (max x + 1)\<close> entries.
\<close>

definition np_bincount :: "nat list \<Rightarrow> nat \<Rightarrow> nat list" where
  "np_bincount xs minlength =
     map (\<lambda>b. count_list xs b) [0..<max minlength (fold (\<lambda>x m. max (x + 1) m) xs 0)]"

text \<open>
  The occupancy vector \<^verbatim>\<open>tmp\<close> of one frame. The frame is reshaped to
  \<^verbatim>\<open>[frame.shape[0] * frame.shape[1], 3]\<close>, the list of its pixels.
\<close>

definition frame_bins :: "frame \<Rightarrow> nat list" where
  "frame_bins f = np_bincount (map pixel_bin (pixels f)) (8 ^ 3)"

text \<open>\<^verbatim>\<open>np.sum(np.absolute(tmp - counts))\<close>.\<close>

definition bins_distance :: "nat list \<Rightarrow> nat list \<Rightarrow> int" where
  "bins_distance tmp counts = sum_list (map (\<lambda>(a, b). \<bar>int a - int b\<bar>) (zip tmp counts))"

fun histogram_loop :: "nat \<Rightarrow> frame option list \<Rightarrow> nat list \<Rightarrow> int list \<Rightarrow> int list" where
  "histogram_loop 0 rs counts li = li"
| "histogram_loop (Suc n) rs counts li =
     (case video_read rs of
        (None, rs') \<Rightarrow> histogram_loop n rs' counts (li @ [- 1])
      | (Some frame, rs') \<Rightarrow>
          (let tmp = frame_bins frame
           in histogram_loop n rs' tmp (li @ [bins_distance tmp counts])))"

definition histogram :: "video \<Rightarrow> int list" where
  "histogram v = histogram_loop (nat (frame_count v - 1)) (frames v) (replicate (8 ^ 3) 0) []"

section \<open>Amplitude\<close>

text \<open>
  A float result: \<open>None\<close> stands for a value that is not finite (nan or an infinity),
  \<open>Some x\<close> for the float \<open>x\<close>, taken as a real.
\<close>

type_synonym npfloat = "real option"

text \<open>
  An opened wave file: channel count, sample width in bytes, declared number of audio
  frames, and the bytes of its data chunk.
\<close>

record wave =
  nchannels :: nat
  sampwidth :: nat
  nframes :: nat
  wdata :: "8 word list"

text \<open>The arrays that \<^verbatim>\<open>amplitude\<close> handles, with their element types.\<close>

datatype np_array = U8 "8 word list" | U16 "16 word list" | I16 "16 word list" | I32 "32 word list"

fun le16 :: "8 word list \<Rightarrow> py_error + 16 word list" where
  "le16 [] = Inr []"
| "le16 (b0 # b1 # bs) =
     (case le16 bs of Inl e \<Rightarrow> Inl e
      | Inr ws \<Rightarrow> Inr ((push_bit 8 (ucast b1) OR ucast b0) # ws))"
| "le16 _ = Inl ValueError"

fun le32 :: "8 word list \<Rightarrow> py_error + 32 word list" where
  "le32 [] = Inr []"
| "le32 (b0 # b1 # b2 # b3 # bs) =
     (case le32 bs of Inl e \<Rightarrow> Inl e
      | Inr ws \<Rightarrow>
          Inr ((push_bit 24 (ucast b3) OR push_bit 16 (ucast b2) OR push_bit 8 (ucast b1)
                OR ucast b0) # ws))"
| "le32 _ = Inl ValueError"

text \<open>
  \<^verbatim>\<open>fmt = "<" + {1: "B", 2: "h", 4: "i"}[size]\<close> raises KeyError for another
  width (\<open>sz\<close> is the source's \<^verbatim>\<open>size\<close>); \<^verbatim>\<open>np.frombuffer(chunk, dtype=fmt)\<close> raises ValueError when the chunk is not
  a whole number of elements.
\<close>

definition fmt_known :: "nat \<Rightarrow> bool" where
  "fmt_known sz = (sz = 1 \<or> sz = 2 \<or> sz = 4)"

definition np_frombuffer :: "nat \<Rightarrow> 8 word list \<Rightarrow> py_error + np_array" where
  "np_frombuffer sz chunk =
     (if sz = 1 then Inr (U8 chunk)
      else if sz = 2 then map_sum id I16 (le16 chunk)
      else map_sum id I32 (le32 chunk))"

text \<open>
  \<^verbatim>\<open>tmp.astype(np.uint16) - 128\<close>: the array is unsigned 16-bit and stays so, and the
  subtraction wraps.
\<close>

fun astype_u16_minus_128 :: "np_array \<Rightarrow> np_array" where
  "astype_u16_minus_128 (U8 xs) = U16 (map (\<lambda>b. (ucast b :: 16 word) - 128) xs)"
| "astype_u16_minus_128 (U16 xs) = U16 (map (\<lambda>w. w - 128) xs)"
| "astype_u16_minus_128 (I16 xs) = U16 (map (\<lambda>w. w - 128) xs)"
| "astype_u16_minus_128 (I32 xs) = U16 (map (\<lambda>w. (ucast w :: 16 word) - 128) xs)"

text \<open>
  \<^verbatim>\<open>np.absolute(tmp, dtype=np.int32)\<close>: the elements are cast to signed 32 bits and
  the absolute value is taken there.
\<close>

definition np_abs_i32 :: "32 word \<Rightarrow> 32 word" where
  "np_abs_i32 w = (if sint w < 0 then - w else w)"

fun np_absolute_i32 :: "np_array \<Rightarrow> 32 word list" where
  "np_absolute_i32 (U8 xs) = map (\<lambda>b. np_abs_i32 (ucast b)) xs"
| "np_absolute_i32 (U16 xs) = map (\<lambda>w. np_abs_i32 (ucast w)) xs"
| "np_absolute_i32 (I16 xs) = map (\<lambda>w. np_abs_i32 (scast w)) xs"
| "np_absolute_i32 (I32 xs) = map np_abs_i32 xs"

text \<open>\<^verbatim>\<open>np.average\<close>: the mean as a float, nan for an empty array.\<close>

definition np_average :: "32 word list \<Rightarrow> npfloat" where
  "np_average xs =
     (if xs = [] then None
      else Some (real_of_int (sum_list (map sint xs)) / real (length xs)))"

text \<open>\<^verbatim>\<open>round(x, 3)\<close>: to three decimals, a tie going to the even neighbour.\<close>

definition round_half_even :: "real \<Rightarrow> int" where
  "round_half_even x =
     (let f = \<lfloor>x\<rfloor>; d = x - real_of_int f
      in if d < 1 / 2 then f else if 1 / 2 < d then f + 1 else if even f then f else f + 1)"

definition py_round3 :: "npfloat \<Rightarrow> npfloat" where
  "py_round3 a = map_option (\<lambda>x. real_of_int (round_half_even (x * 1000)) / 1000) a"

text \<open>
  The loop over \<^verbatim>\<open>range(0, frames)\<close>. \<^verbatim>\<open>w.readframes(spf)\<close> takes the next
  \<open>spf\<close> audio frames, \<open>spf * nchannels * sampwidth\<close> bytes, or what is left of the data.
\<close>

fun amplitude_loop ::
  "nat \<Rightarrow> nat \<Rightarrow> nat \<Rightarrow> 8 word list \<Rightarrow> npfloat list \<Rightarrow> py_error + npfloat list" where
  "amplitude_loop 0 nbytes sz rest li = Inr li"
| "amplitude_loop (Suc n) nbytes sz rest li =
     (let chunk = take nbytes rest
      in case np_frombuffer sz chunk of
           Inl e \<Rightarrow> Inl e
         | Inr tmp \<Rightarrow>
             (let tmp' = (if sz = 1 then astype_u16_minus_128 tmp else tmp)
              in amplitude_loop n nbytes sz (drop nbytes rest)
                   (li @ [py_round3 (np_average (np_absolute_i32 tmp'))])))"

text \<open>
  \<^verbatim>\<open>amplitude(video, audio_name)\<close>. \<^verbatim>\<open>samples // frames\<close> raises
  ZeroDivisionError for a frame count of 0. For a negative frame count the loop does
  not run and nothing is read.
\<close>

definition amplitude :: "video \<Rightarrow> wave \<Rightarrow> py_error + npfloat list" where
  "amplitude v w =
     (let frames_n = frame_count v; cn = nchannels w; sz = sampwidth w; samples = nframes w
      in if frames_n = 0 then Inl ZeroDivisionError
         else if \<not> fmt_known sz then Inl KeyError
         else if frames_n < 0 then Inr []
         else (let spf = samples div nat frames_n
               in amplitude_loop (nat frames_n) (spf * cn * sz) sz (wdata w) []))"

section \<open>Joint\<close>

text \<open>\<^verbatim>\<open>np.max\<close> raises ValueError on an array without elements.\<close>

fun np_max :: "real list \<Rightarrow> py_error + real" where
  "np_max [] = Inl ValueError"
| "np_max (x # xs) = Inr (fold max xs x)"

text \<open>\<^verbatim>\<open>temp.resize(result.shape)\<close> on a shorter array: filled up with zeros.\<close>

definition np_resize :: "real list \<Rightarrow> nat \<Rightarrow> real list" where
  "np_resize temp n = take n temp @ replicate (n - length temp) 0"

text \<open>
  \<^verbatim>\<open>temp / np.max(temp)\<close>: a division by zero does not raise, each element becomes
  nan or an infinity.
\<close>

definition np_divide :: "real list \<Rightarrow> real \<Rightarrow> npfloat list" where
  "np_divide temp m = map (\<lambda>x. if m = 0 then None else Some (x / m)) temp"

definition np_add :: "npfloat \<Rightarrow> npfloat \<Rightarrow> npfloat" where
  "np_add a b = (case (a, b) of (Some x, Some y) \<Rightarrow> Some (x + y) | _ \<Rightarrow> None)"

text \<open>
  \<^verbatim>\<open>result += v\<close>: \<open>v\<close> must have the shape of \<open>result\<close> or a single element, which
  is then added to every entry; otherwise the shapes do not broadcast and numpy raises
  ValueError.
\<close>

definition np_iadd :: "npfloat list \<Rightarrow> npfloat list \<Rightarrow> py_error + npfloat list" where
  "np_iadd result v =
     (if length v = length result then Inr (map (\<lambda>(a, b). np_add a b) (zip result v))
      else if length v = 1 then Inr (map (\<lambda>a. np_add a (hd v)) result)
      else Inl ValueError)"

fun joint_loop :: "nat \<Rightarrow> real list list \<Rightarrow> npfloat list \<Rightarrow> py_error + npfloat list" where
  "joint_loop base [] result = Inr result"
| "joint_loop base (d # ds) result =
     (let temp = (if length d < base then np_resize d base else d)
      in case np_max temp of
           Inl e \<Rightarrow> Inl e
         | Inr m \<Rightarrow>
             (case np_iadd result (np_divide temp m) of
                Inl e \<Rightarrow> Inl e
              | Inr result' \<Rightarrow> joint_loop base ds result'))"

text \<open>\<^verbatim>\<open>joint(data)\<close>; \<^verbatim>\<open>data[0]\<close> raises IndexError on an empty list.\<close>

definition joint :: "real list list \<Rightarrow> py_error + npfloat list" where
  "joint data =
     (case data of
        [] \<Rightarrow> Inl IndexError
      | d0 # _ \<Rightarrow> joint_loop (length d0) data (replicate (length d0) (Some 0)))"

section \<open>The event stream as the specification words it\<close>

text \<open>
  One record per (sequence, index) pair, sequence-major and index-minor; the record of
  index \<open>j\<close> carries the timestamp \<open>base + 1000 * j\<close> in every group.
\<close>

definition event_at :: "int \<Rightarrow> string \<Rightarrow> nat \<Rightarrow> real \<Rightarrow> metric_event" where
  "event_at base label j x =
     \<lparr>timestamp = base + 1000 * int j, feature = label, val = x,
      parameters = [(''system'', ''track1'')]\<rparr>"

definition group_events :: "int \<Rightarrow> string \<Rightarrow> real list \<Rightarrow> metric_event list" where
  "group_events base label l = map (\<lambda>(j, x). event_at base label j x) (enumerate 0 l)"

definition all_events :: "int \<Rightarrow> string list \<Rightarrow> real list list \<Rightarrow> metric_event list" where
  "all_events base features seqs =
     concat (map (\<lambda>(i, l). group_events base (features ! i) l) (enumerate 0 seqs))"

section \<open>The held previous frame\<close>

text \<open>
  The frames that decoded among some reads, in order, and the last frame that decoded
  before the \<open>k\<close>-th read of the contrast loop: the frame read before the loop when
  none of the reads \<open>0..<k\<close> decoded.
\<close>

definition decoded :: "frame option list \<Rightarrow> frame list" where
  "decoded rs = concat (map (\<lambda>r. case r of None \<Rightarrow> [] | Some f \<Rightarrow> [f]) rs)"

definition held_frame :: "frame \<Rightarrow> frame option list \<Rightarrow> nat \<Rightarrow> frame" where
  "held_frame first rs k = last (first # decoded (take k rs))"

section \<open>The sum of peak ratios as the specification words it\<close>

text \<open>
  An input filled up with zeros to \<open>n\<close> values, the ratio of its \<open>k\<close>-th value to its
  maximum (not finite when the maximum is 0), and the sum of such ratios.
\<close>

definition zero_pad :: "nat \<Rightarrow> real list \<Rightarrow> real list" where
  "zero_pad n d = d @ replicate (n - length d) 0"

definition peak_ratio :: "real list \<Rightarrow> nat \<Rightarrow> npfloat" where
  "peak_ratio p k = (if Max (set p) = 0 then None else Some (p ! k / Max (set p)))"

definition npfloat_sum :: "npfloat list \<Rightarrow> npfloat" where
  "npfloat_sum xs = fold (\<lambda>x acc. np_add acc x) xs (Some 0)"

section \<open>Sample inputs\<close>

text \<open>
  Two frames of one row and two pixels, and a capture that declares five frames, loses
  its second one and ends after the fourth.
\<close>

definition frame_a :: frame where
  "frame_a = \<lparr>height = 1, width = 2, pixels = [(1, 2, 3), (4, 5, 6)]\<rparr>"

definition frame_b :: frame where
  "frame_b = \<lparr>height = 1, width = 2, pixels = [(10, 2, 0), (4, 255, 6)]\<rparr>"

definition clip :: video where
  "clip = \<lparr>frame_count = 5, frames = [Some frame_a, None, Some frame_b, Some frame_a]\<rparr>"

text \<open>A frame of 3840 by 2160 pixels, all white.\<close>

definition white_4k :: frame where
  "white_4k =
     \<lparr>height = 2160, width = 3840, pixels = replicate (2160 * 3840) (255, 255, 255)\<rparr>"

text \<open>
  A mono wave file of four one-byte samples, all 100 (that is \<open>- 28\<close> on the centred
  scale), beside a capture of two frames.
\<close>

definition quiet_wave :: wave where
  "quiet_wave = \<lparr>nchannels = 1, sampwidth = 1, nframes = 4, wdata = [100, 100, 100, 100]\<rparr>"

definition two_frames :: video where
  "two_frames = \<lparr>frame_count = 2, frames = [Some frame_a, Some frame_b]\<rparr>"

section \<open>Properties of the change-point detector\<close>

text \<open>
  A sequence of at most 31 values never passes the gate \<^verbatim>\<open>i - curr_cp > shot_length\<close>,
  so the loop records nothing.
\<close>


lemma cp_loop_short:
  "length data \<le> 31 \<Longrightarrow> cp_loop data cutoff cp curr_cp i = cp"
proof (induction data cutoff cp curr_cp i rule: cp_loop.induct)
  case (1 data cutoff cp curr_cp i)
  show ?case
  proof (cases "i < length data")
    case False
    then show ?thesis by (simp add: cp_loop.simps)
  next
    case True
    with "1.prems" have gate: "\<not> int i - int curr_cp > 30" by simp
    show ?thesis
    proof (cases "data ! i \<ge> cutoff")
      case True
      with \<open>i < length data\<close> gate "1.IH"(1) "1.prems" show ?thesis
        by (subst cp_loop.simps) simp
    next
      case False
      with \<open>i < length data\<close> "1.IH"(2) "1.prems" show ?thesis
        by (subst cp_loop.simps) simp
    qed
  qed
qed

lemma py_max_Inr: "data \<noteq> [] \<Longrightarrow> \<exists>m. py_max data = Inr m"
  by (cases data) simp_all

lemma change_points_short:
  "data \<noteq> [] \<Longrightarrow> length data \<le> 31 \<Longrightarrow> change_points data = Inl IndexError"
  using py_max_Inr [of data] by (auto simp: change_points_def cp_loop_short)

lemma cp_loop_inv:
  "sorted_wrt (<) cp \<Longrightarrow> (\<forall>c\<in>set cp. c < curr_cp) \<Longrightarrow> curr_cp < i
     \<Longrightarrow> (\<forall>c\<in>set cp. Suc c < length data)
     \<Longrightarrow> sorted_wrt (<) (cp_loop data cutoff cp curr_cp i)
         \<and> (\<forall>c\<in>set (cp_loop data cutoff cp curr_cp i). Suc c < length data)"
proof (induction data cutoff cp curr_cp i rule: cp_loop.induct)
  case (1 data cutoff cp curr_cp i)
  show ?case
  proof (cases "i < length data")
    case False
    with "1.prems" show ?thesis by (simp add: cp_loop.simps)
  next
    case inb: True
    show ?thesis
    proof (cases "data ! i \<ge> cutoff")
      case False
      with inb "1.IH"(2) "1.prems" show ?thesis
        by (subst (1 2) cp_loop.simps) simp
    next
      case hit: True
      let ?cp' = "if int i - int curr_cp > 30 then cp @ [curr_cp] else cp"
      have a: "sorted_wrt (<) ?cp'"
        using "1.prems" by (auto simp: sorted_wrt_append)
      have b: "\<forall>c\<in>set ?cp'. c < i"
        using "1.prems" by auto
      have c: "\<forall>c\<in>set ?cp'. Suc c < length data"
        using "1.prems" inb by auto
      have "sorted_wrt (<) (cp_loop data cutoff ?cp' i (i + 1))
         \<and> (\<forall>c\<in>set (cp_loop data cutoff ?cp' i (i + 1)). Suc c < length data)"
        using "1.IH"(1) [OF inb hit a b _ c] by simp
      with inb hit show ?thesis
        by (subst (1 2) cp_loop.simps) simp
    qed
  qed
qed

lemma change_points_Inr:
  assumes "change_points data = Inr r"
  shows "sorted_wrt (<) r \<and> hd r = 0 \<and> last r = length data - 1 \<and> 2 \<le> length r"
proof -
  from assms obtain m where m: "py_max data = Inr m"
    by (auto simp: change_points_def split: sum.splits)
  define cp where "cp = cp_loop data (m * (3 / 10)) [] 0 1"
  have inv: "sorted_wrt (<) cp \<and> (\<forall>c\<in>set cp. Suc c < length data)"
    unfolding cp_def by (rule cp_loop_inv) simp_all
  have eq: "change_points data =
      (case cp of [] \<Rightarrow> Inl IndexError
       | c # _ \<Rightarrow>
           (let cp1 = (if c \<noteq> 0 then [0] @ cp else cp)
            in if last cp1 \<noteq> length data - 1
               then Inr (cp1 @ [length data - 1]) else Inr cp1))"
    unfolding change_points_def m cp_def by (simp only: sum.case Let_def)
  from assms obtain c cs where cp: "cp = c # cs"
    unfolding eq by (cases cp) simp_all
  define cp1 where "cp1 = (if c \<noteq> 0 then [0] @ cp else cp)"
  have s1: "sorted_wrt (<) cp1" using inv cp by (auto simp: cp1_def)
  have b1: "\<forall>c\<in>set cp1. Suc c < length data" using inv cp by (auto simp: cp1_def)
  have ne: "cp1 \<noteq> []" using cp by (simp add: cp1_def)
  have h1: "hd cp1 = 0" using cp by (simp add: cp1_def)
  from ne b1 have "Suc (last cp1) < length data" by simp
  then have neq: "last cp1 \<noteq> length data - 1" by simp
  from assms cp neq have r: "r = cp1 @ [length data - 1]"
    unfolding eq by (simp add: cp1_def Let_def split: if_splits)
  have "sorted_wrt (<) r"
    using s1 b1 by (auto simp: r sorted_wrt_append)
  moreover have "hd r = 0" using ne h1 by (simp add: r)
  moreover have "last r = length data - 1" by (simp add: r)
  moreover have "2 \<le> length r" using ne by (cases cp1) (simp_all add: r)
  ultimately show ?thesis by blast
qed

text \<open>
  C1 (the result of \<^verbatim>\<open>change_points\<close> on a non-empty sequence is strictly ascending,
  starts with 0 and ends with the last index). Lemma \<open>change_points_Inr\<close> shows this
  for every call that returns. The call does not return when the loop has recorded no
  change point: \<^verbatim>\<open>cp[0]\<close> is then read from the empty list. This happens on the
  three-element sequence \<open>[1, 2, 3]\<close>, and on the sequence of the specification's own
  test, two spikes of 100 at the indices 29 and 59 among zeros.
\<close>

theorem change_points_raises_without_marker:
  "change_points [1, 2, 3] = Inl IndexError
   \<and> change_points (replicate 29 0 @ [100] @ replicate 29 0 @ [100]) = Inl IndexError"
proof
  show "change_points [1, 2, 3] = Inl IndexError"
    by (simp add: change_points_short)
  show "change_points (replicate 29 0 @ [100] @ replicate 29 0 @ [100]) = Inl IndexError"
    by code_simp
qed

section \<open>Properties of the event serializer\<close>

text \<open>
  The clock reading is not negative, so \<^verbatim>\<open>int\<close> is the floor and commutes with the
  steps of 1000. (At the magnitude of a clock reading in milliseconds, below \<open>2^41\<close>,
  adding 1000 to a double is exact, so the float sum is the real sum.)
\<close>


lemma py_int_add_1000: "0 \<le> t \<Longrightarrow> py_int (t + 1000) = py_int t + 1000"
proof -
  assume "0 \<le> t"
  have "\<lfloor>t + of_int 1000\<rfloor> = \<lfloor>t\<rfloor> + 1000" by (simp only: floor_add_int)
  then have "\<lfloor>t + 1000\<rfloor> = \<lfloor>t\<rfloor> + 1000" by simp
  then show ?thesis using \<open>0 \<le> t\<close> by (simp add: py_int_def)
qed

lemma group_events_Cons:
  "group_events base label (x # xs) = event_at base label 0 x # group_events (base + 1000) label xs"
  by (simp add: group_events_def enumerate_Suc_eq event_at_def split_def apfst_def map_prod_def
      algebra_simps)

lemma to_json_group_events:
  "i < length features \<Longrightarrow> 0 \<le> t \<Longrightarrow>
   to_json_group features i l li2 t =
     Inr (li2 @ group_events (py_int t) (features ! i) l, t + 1000 * real (length l))"
proof (induction l arbitrary: li2 t)
  case Nil
  then show ?case by (simp add: group_events_def)
next
  case (Cons x xs)
  have "0 \<le> t + 1000" using Cons.prems by simp
  with Cons show ?case
    by (simp add: group_events_Cons py_int_add_1000 event_at_def algebra_simps)
qed

lemma to_json_groups_events:
  "i + length ls \<le> length features \<Longrightarrow> 0 \<le> copy \<Longrightarrow>
   to_json_groups features copy i ls li2 copy =
     Inr (li2 @ concat (map (\<lambda>(k, l). group_events (py_int copy) (features ! k) l)
                          (enumerate i ls)))"
proof (induction ls arbitrary: i li2)
  case Nil
  then show ?case by simp
next
  case (Cons l ls)
  then have i: "i < length features" and rest: "Suc i + length ls \<le> length features"
    by simp_all
  show ?case
    using Cons.IH [OF rest Cons.prems(2)] Cons.prems(2)
    by (simp add: to_json_group_events [OF i])
qed

lemma to_json_example:
  assumes "0 \<le> now"
  shows "\<exists>e1 e2 e3 e4. to_json [[1, 2], [3, 4]] [''a'', ''b''] now = Inr [e1, e2, e3, e4]
           \<and> timestamp e1 = timestamp e3 \<and> timestamp e2 = timestamp e1 + 1000"
  using assms
  by (simp add: to_json_def py_int_add_1000)

text \<open>
  C2 (\<^verbatim>\<open>to_json\<close> emits one record per (sequence, index) pair, sequence-major and
  index-minor, the record of index \<open>j\<close> carrying \<open>base + 1000 * j\<close> for a base chosen
  once, the same in every group). Here for sequences that each have their label and a
  clock reading that is not negative; the base is the truncated clock reading. The
  instance \<open>[[1, 2], [3, 4]]\<close> with the labels \<open>a\<close>, \<open>b\<close> is \<open>to_json_example\<close> for
  every such clock reading, and the witness below at one of them.
\<close>

theorem to_json_events:
  assumes "0 \<le> now" and "length seqs \<le> length features"
  shows "to_json seqs features now = Inr (all_events (py_int now) features seqs)"
  using assms by (simp add: to_json_def all_events_def to_json_groups_events)

theorem to_json_events_witness:
  "to_json [[1, 2], [3, 4]] [''a'', ''b''] 1700000000000.25 =
     Inr [\<lparr>timestamp = 1700000000000, feature = ''a'', val = 1,
            parameters = [(''system'', ''track1'')]\<rparr>,
          \<lparr>timestamp = 1700000001000, feature = ''a'', val = 2,
            parameters = [(''system'', ''track1'')]\<rparr>,
          \<lparr>timestamp = 1700000000000, feature = ''b'', val = 3,
            parameters = [(''system'', ''track1'')]\<rparr>,
          \<lparr>timestamp = 1700000001000, feature = ''b'', val = 4,
            parameters = [(''system'', ''track1'')]\<rparr>]"
  using to_json_events [of "1700000000000.25" "[[1, 2], [3, 4]]" "[''a'', ''b'']"]
  by (simp add: all_events_def group_events_def event_at_def py_int_def enumerate_eq_zip upt_rec)

section \<open>Properties of the brightness extractor\<close>

lemma nth_read_simps [simp]:
  "nth_read [] k = None"
  "nth_read (r # rs) 0 = r"
  "nth_read (r # rs) (Suc k) = nth_read rs k"
  by (simp_all add: nth_read_def)

lemma frame_brightness_nonneg: "0 \<le> frame_brightness f"
  by (simp add: frame_brightness_def)

lemma brightness_loop_eq:
  "brightness_loop n rs li =
     li @ map (\<lambda>k. case nth_read rs k of None \<Rightarrow> - 1 | Some f \<Rightarrow> frame_brightness f) [0..<n]"
proof (induction n arbitrary: rs li)
  case 0
  show ?case by simp
next
  case (Suc n)
  show ?case
  proof (cases rs)
    case Nil
    then show ?thesis by (simp add: Suc.IH map_upt_Suc del: upt_Suc)
  next
    case (Cons r rs')
    then show ?thesis
      by (cases r) (simp_all add: Suc.IH map_upt_Suc del: upt_Suc)
  qed
qed

text \<open>
  C3 (\<^verbatim>\<open>brightness\<close> returns one value per declared frame; the value of a decoded
  frame is not negative, and \<open>- 1\<close> stands exactly at the positions whose read gave no
  frame). The declared frame count is a count, not negative.
\<close>

theorem brightness_dense:
  assumes "0 \<le> frame_count v"
  shows "int (length (brightness v)) = frame_count v
     \<and> (\<forall>k < length (brightness v).
           (case nth_read (frames v) k of
              None \<Rightarrow> brightness v ! k = - 1
            | Some f \<Rightarrow> 0 \<le> brightness v ! k \<and> brightness v ! k = frame_brightness f)
         \<and> ((brightness v ! k = - 1) = (nth_read (frames v) k = None)))"
proof -
  have len: "length (brightness v) = nat (frame_count v)"
    by (simp add: brightness_def brightness_loop_eq)
  have nth: "brightness v ! k =
      (case nth_read (frames v) k of None \<Rightarrow> - 1 | Some f \<Rightarrow> frame_brightness f)"
    if "k < nat (frame_count v)" for k
    using that by (simp add: brightness_def brightness_loop_eq)
  have pos: "frame_brightness f \<noteq> - 1" for f
    using frame_brightness_nonneg [of f] by simp
  show ?thesis
    using assms len
    by (auto simp: nth frame_brightness_nonneg pos split: option.splits)
qed

theorem brightness_dense_witness:
  "int (length (brightness clip)) = 5
   \<and> brightness clip ! 0 = 21 \<and> brightness clip ! 1 = - 1 \<and> brightness clip ! 4 = - 1"
proof -
  have fc: "0 \<le> frame_count clip" by (simp add: clip_def)
  have len: "int (length (brightness clip)) = 5"
    using brightness_dense [OF fc] by (simp add: clip_def)
  have a: "frame_brightness frame_a = 21" by code_simp
  have "brightness clip ! 0 = 21"
    using brightness_dense [OF fc] len a by (auto simp: clip_def nth_read_def dest!: spec [of _ 0])
  moreover have "brightness clip ! 1 = - 1"
    using brightness_dense [OF fc] len by (auto simp: clip_def nth_read_def dest!: spec [of _ 1])
  moreover have "brightness clip ! 4 = - 1"
    using brightness_dense [OF fc] len by (auto simp: clip_def nth_read_def dest!: spec [of _ 4])
  ultimately show ?thesis using len by simp
qed

section \<open>Properties of the contrast extractor\<close>

lemma same_shape_refl [simp]: "same_shape f f"
  by (simp add: same_shape_def)

lemma same_shape_trans2: "same_shape f h \<Longrightarrow> same_shape g h \<Longrightarrow> same_shape g f"
  by (simp add: same_shape_def)

lemma decoded_simps [simp]:
  "decoded [] = []"
  "decoded (None # rs) = decoded rs"
  "decoded (Some f # rs) = f # decoded rs"
  by (simp_all add: decoded_def)

lemma held_frame_simps [simp]:
  "held_frame frame rs 0 = frame"
  "held_frame frame [] k = frame"
  "held_frame frame (None # rs) (Suc k) = held_frame frame rs k"
  "held_frame frame (Some f2 # rs) (Suc k) = held_frame f2 rs k"
  by (simp_all add: held_frame_def)

lemma contrast_loop_eq:
  "\<forall>f\<in>set (decoded rs). same_shape f frame \<Longrightarrow>
   contrast_loop n rs frame li =
     Inr (li @ map (\<lambda>k. case nth_read rs k of
                          None \<Rightarrow> - 1
                        | Some f2 \<Rightarrow> frame_sad f2 (held_frame frame rs k)) [0..<n])"
proof (induction n arbitrary: rs frame li)
  case 0
  show ?case by simp
next
  case (Suc n)
  show ?case
  proof (cases rs)
    case Nil
    then show ?thesis by (simp add: Suc.IH map_upt_Suc del: upt_Suc)
  next
    case (Cons r rs')
    show ?thesis
    proof (cases r)
      case None
      with Cons Suc.prems have rest: "\<forall>f\<in>set (decoded rs'). same_shape f frame"
        by simp
      show ?thesis unfolding Cons None
        by (simp add: Suc.IH [OF rest] map_upt_Suc del: upt_Suc cong: option.case_cong)
    next
      case (Some f2)
      with Cons Suc.prems have sh: "same_shape f2 frame"
        and rest: "\<forall>f\<in>set (decoded rs'). same_shape f f2"
        by (auto intro: same_shape_trans2)
      from sh show ?thesis unfolding Cons Some
        by (simp add: Suc.IH [OF rest] frame_absdiff_def map_upt_Suc del: upt_Suc
            cong: option.case_cong)
    qed
  qed
qed
lemma contrast_first_None:
  "nth_read (frames v) 0 = None \<Longrightarrow> contrast v = Inl AttributeError"
  by (cases "frames v") (simp_all add: contrast_def)

lemma contrast_loop_length:
  "contrast_loop n rs frame li = Inr out \<Longrightarrow> length out = length li + n"
proof (induction n arbitrary: rs frame li)
  case 0
  then show ?case by simp
next
  case (Suc n)
  then show ?case
    by (cases rs) (fastforce split: option.splits sum.splits)+
qed

lemma contrast_length:
  "contrast v = Inr li \<Longrightarrow> int (length li) = max (frame_count v - 1) 0"
  by (cases "frames v")
     (auto simp: contrast_def split: option.splits dest!: contrast_loop_length)

text \<open>
  C4 (the contrast sequence has \<open>max (frame_count - 1) 0\<close> values for every source).
  Lemma \<open>contrast_length\<close> shows this length for every call that returns. The call
  does not return when the very first read gives no frame: the loop guards a failed
  read, the read before the loop is not guarded and \<^verbatim>\<open>frame.astype\<close> raises. This
  is what a capture that declares no frame and delivers none does, and one whose
  first frame only is lost.
\<close>

theorem contrast_first_read_unguarded:
  "contrast \<lparr>frame_count = 0, frames = []\<rparr> = Inl AttributeError
   \<and> contrast \<lparr>frame_count = 3, frames = [None, Some f, Some f]\<rparr> = Inl AttributeError"
  by (simp add: contrast_def)

text \<open>
  C5 (on a failed read the contrast loop appends \<open>- 1\<close> and keeps its previous frame:
  the next decoded frame is compared with the last frame that decoded). For a source
  whose first read decodes and whose frames have one shape, so that the call returns.
\<close>

theorem contrast_holds_previous:
  assumes "frames v = Some f0 # rs" and "\<forall>f\<in>set (decoded rs). same_shape f f0"
  shows "\<exists>li. contrast v = Inr li \<and> length li = nat (frame_count v - 1)
     \<and> (\<forall>k < length li.
           li ! k = (case nth_read rs k of
                       None \<Rightarrow> - 1
                     | Some f2 \<Rightarrow> frame_sad f2 (held_frame f0 rs k)))"
  using assms by (simp add: contrast_def contrast_loop_eq cong: option.case_cong)

theorem contrast_holds_previous_witness:
  "\<exists>li. contrast clip = Inr li \<and> length li = 4
     \<and> li ! 0 = - 1 \<and> li ! 1 = frame_sad frame_b frame_a \<and> li ! 1 = 262"
proof -
  have fs: "frames clip = Some frame_a # [None, Some frame_b, Some frame_a]"
    by (simp add: clip_def)
  have sh: "\<forall>f\<in>set (decoded [None, Some frame_b, Some frame_a]). same_shape f frame_a"
    by (simp add: same_shape_def frame_a_def frame_b_def)
  have v: "frame_sad frame_b frame_a = 262" by code_simp
  from contrast_holds_previous [OF fs sh] obtain li where
    li: "contrast clip = Inr li" and len: "length li = nat (frame_count clip - 1)"
    and nth: "\<forall>k<length li. li ! k =
        (case nth_read [None, Some frame_b, Some frame_a] k of
           None \<Rightarrow> - 1
         | Some f2 \<Rightarrow> frame_sad f2 (held_frame frame_a [None, Some frame_b, Some frame_a] k))"
    by blast
  from len have len4: "length li = 4" by (simp add: clip_def)
  from nth len4 have "li ! 0 = - 1" by (auto dest!: spec [of _ 0])
  moreover from nth len4 have "li ! 1 = frame_sad frame_b frame_a"
    by (auto simp: numeral_2_eq_2 dest!: spec [of _ 1])
  ultimately show ?thesis using li len4 v by auto
qed

section \<open>The width of the brightness sum\<close>

lemma uint_np_sum_u8_u32:
  "uint (np_sum_u8_u32 xs) = (\<Sum>x\<leftarrow>xs. uint x) mod 2 ^ 32"
proof (induction xs)
  case Nil
  show ?case by (simp add: np_sum_u8_u32_def)
next
  case (Cons x xs)
  have up: "uint (ucast x :: 32 word) = uint x"
    by (simp add: uint_up_ucast is_up)
  have "uint (np_sum_u8_u32 (x # xs)) = (uint x + uint (np_sum_u8_u32 xs)) mod 2 ^ 32"
    by (simp add: np_sum_u8_u32_def uint_word_ariths up)
  also have "\<dots> = (uint x + (\<Sum>x\<leftarrow>xs. uint x) mod 2 ^ 32) mod 2 ^ 32"
    by (simp only: Cons.IH)
  also have "\<dots> = (uint x + (\<Sum>x\<leftarrow>xs. uint x)) mod 2 ^ 32"
    by (simp add: mod_add_right_eq)
  finally show ?case by simp
qed

lemma sum_uint_u8_le: "(\<Sum>x\<leftarrow>xs. uint (x :: 8 word)) \<le> 255 * int (length xs)"
proof (induction xs)
  case Nil
  show ?case by simp
next
  case (Cons x xs)
  have "uint x < 2 ^ 8" using uint_bounded [of x] by simp
  then have "uint x \<le> 255" by simp
  with Cons show ?case by simp
qed

lemma sum_uint_nonneg: "0 \<le> (\<Sum>x\<leftarrow>xs. uint (x :: 8 word))"
  by (induction xs) simp_all

lemma length_channels:
  "length (concat (map (\<lambda>(c0, c1, c2). [c0, c1, c2]) ps)) = 3 * length ps"
  by (induction ps) auto

lemma length_frame_samples: "length (frame_samples f) = 3 * length (pixels f)"
  by (simp add: frame_samples_def length_channels)

text \<open>
  What the 32-bit accumulator computes: the sum modulo \<open>2^32\<close>, which is the sum
  itself as long as \<open>width * height * 3 * 255\<close> stays below \<open>2^32\<close>.
\<close>

lemma frame_brightness_mod:
  "frame_brightness f = (\<Sum>c\<leftarrow>frame_samples f. uint c) mod 2 ^ 32
   \<and> (wf_frame f \<longrightarrow> height f * width f * 3 * 255 < 2 ^ 32
        \<longrightarrow> frame_brightness f = (\<Sum>c\<leftarrow>frame_samples f. uint c))"
proof (intro conjI impI)
  show m: "frame_brightness f = (\<Sum>c\<leftarrow>frame_samples f. uint c) mod 2 ^ 32"
    by (simp add: frame_brightness_def uint_np_sum_u8_u32)
  assume wf: "wf_frame f" and small: "height f * width f * 3 * 255 < 2 ^ 32"
  have "(\<Sum>c\<leftarrow>frame_samples f. uint c) \<le> 255 * int (length (frame_samples f))"
    by (rule sum_uint_u8_le)
  also have "\<dots> = int (height f * width f * 3 * 255)"
    using wf by (simp add: length_frame_samples wf_frame_def)
  also have "\<dots> < 2 ^ 32" using small by (simp only: of_nat_less_numeral_power_cancel_iff)
  finally have "(\<Sum>c\<leftarrow>frame_samples f. uint c) < 2 ^ 32" .
  with sum_uint_nonneg [of "frame_samples f"] show
    "frame_brightness f = (\<Sum>c\<leftarrow>frame_samples f. uint c)"
    by (simp add: m)
qed

lemma frame_brightness_small_frame:
  "wf_frame frame_b \<and> frame_brightness frame_b = 277
   \<and> (\<Sum>c\<leftarrow>frame_samples frame_b. uint c) = 277"
proof -
  have wf: "wf_frame frame_b" by (simp add: wf_frame_def frame_b_def)
  have small: "height frame_b * width frame_b * 3 * 255 < 2 ^ 32" by (simp add: frame_b_def)
  have s: "(\<Sum>c\<leftarrow>frame_samples frame_b. uint c) = 277"
    by (simp add: frame_b_def frame_samples_def)
  from frame_brightness_mod [of frame_b] wf small s show ?thesis by simp
qed

lemma sum_concat_replicate:
  "(\<Sum>c\<leftarrow>concat (replicate n l). f c) = int n * (\<Sum>c\<leftarrow>l. f c)"
  by (induction n) (simp_all add: algebra_simps)

lemma white_4k_sum: "(\<Sum>c\<leftarrow>frame_samples white_4k. uint c) = 6345216000"
  by (simp add: white_4k_def frame_samples_def sum_concat_replicate)

text \<open>
  C7 (the brightness of a decoded frame is the exact sum of all its channel values, the
  accumulator being wide enough for \<open>width * height * channels * 255\<close>). The
  docstring of \<^verbatim>\<open>brightness\<close> says the same (``simply the sum of all colour
  components of every pixel''), and \<^verbatim>\<open>dtype=np.uint32\<close> widens the sum for that
  purpose, but 32 bits do not hold the sum of a large bright frame: the samples of a
  white frame of 3840 by 2160 pixels add up to 6345216000, and the reported brightness
  is 2050248704.
\<close>

theorem frame_brightness_wraps_4k:
  "frame_brightness white_4k = 2050248704
   \<and> (\<Sum>c\<leftarrow>frame_samples white_4k. uint c) = 6345216000
   \<and> frame_brightness white_4k \<noteq> (\<Sum>c\<leftarrow>frame_samples white_4k. uint c)"
  by (simp add: frame_brightness_def uint_np_sum_u8_u32 white_4k_sum)

section \<open>Properties of the histogram extractor\<close>

lemma quantize_bound: "unat (quantize c) < 8"
proof -
  have "int (unat (ucast c :: 16 word)) = int (unat c)"
    by (simp add: uint_up_ucast is_up)
  then have "unat (ucast c :: 16 word) = unat c" by (simp only: of_nat_eq_iff)
  moreover have "unat c < 256" using unsigned_less [of c, where 'a = nat] by simp
  ultimately show ?thesis by (simp add: quantize_def unat_div)
qed

lemma pixel_bin_bound: "pixel_bin p < 512"
proof (cases p)
  case (fields c0 c1 c2)
  show ?thesis
    using quantize_bound [of c0] quantize_bound [of c1] quantize_bound [of c2]
    by (simp add: fields pixel_bin_def)
qed

lemma fold_max_le:
  "\<forall>x\<in>set xs. x < N \<Longrightarrow> a \<le> N \<Longrightarrow> fold (\<lambda>x m. max (x + 1) m) xs a \<le> (N :: nat)"
  by (induction xs arbitrary: a) auto

lemma length_np_bincount:
  "\<forall>x\<in>set xs. x < m \<Longrightarrow> length (np_bincount xs m) = m"
  using fold_max_le [of xs m 0] by (simp add: np_bincount_def max_def)

lemma sum_list_np_bincount:
  assumes "\<forall>x\<in>set xs. x < m"
  shows "sum_list (np_bincount xs m) = length xs"
proof -
  have n: "max m (fold (\<lambda>x m. max (x + 1) m) xs 0) = m"
    using fold_max_le [of xs m 0] assms by (simp add: max_def)
  have "sum_list (np_bincount xs m) = sum_list (map (count_list xs) [0..<m])"
    unfolding np_bincount_def n ..
  also have "\<dots> = sum (count_list xs) {0..<m}"
    by (simp add: interv_sum_list_conv_sum_set_nat)
  also have "\<dots> = length xs"
    using assms by (intro sum_count_set) auto
  finally show ?thesis .
qed

text \<open>
  C9 (the occupancy vector of a decoded frame has \<open>8^3 = 512\<close> bins and sums to
  \<open>width * height\<close>: every pixel falls into exactly one bin). The frame is an array
  of shape \<open>(height, width, 3)\<close>, that is \<open>wf_frame\<close>.
\<close>

theorem frame_bins_total:
  assumes "wf_frame f"
  shows "length (frame_bins f) = 512 \<and> sum_list (frame_bins f) = width f * height f"
proof -
  have b: "\<forall>x\<in>set (map pixel_bin (pixels f)). x < 8 ^ 3"
    using pixel_bin_bound by simp
  show ?thesis
    using assms length_np_bincount [OF b] sum_list_np_bincount [OF b]
    by (simp add: frame_bins_def wf_frame_def mult.commute)
qed

theorem frame_bins_total_witness:
  "wf_frame frame_b \<and> length (frame_bins frame_b) = 512 \<and> sum_list (frame_bins frame_b) = 2"
proof -
  have wf: "wf_frame frame_b" by (simp add: wf_frame_def frame_b_def)
  from frame_bins_total [OF wf] wf show ?thesis by (simp add: frame_b_def)
qed

section \<open>Properties of the amplitude extractor\<close>

text \<open>
  One byte \<open>b\<close> after \<^verbatim>\<open>tmp.astype(np.uint16) - 128\<close> and
  \<^verbatim>\<open>np.absolute(_, dtype=np.int32)\<close>: below 128 the unsigned subtraction wraps and
  the value is \<open>b + 65408\<close>, not \<open>128 - b\<close>.
\<close>

lemma sint_small: "uint (w :: 32 word) < 2 ^ 31 \<Longrightarrow> sint w = uint w"
proof -
  assume a: "uint w < 2 ^ 31"
  have "sint w = signed_take_bit (LENGTH(32) - Suc 0) (uint w)" by (rule sint_uint)
  also have "\<dots> = uint w"
  proof (rule signed_take_bit_int_eq_self)
    have "0 \<le> uint w" by simp
    moreover have "- (2 ^ (LENGTH(32) - Suc 0)) \<le> (0 :: int)" by simp
    ultimately show "- (2 ^ (LENGTH(32) - Suc 0)) \<le> uint w" by (rule order_trans [rotated])
    show "uint w < 2 ^ (LENGTH(32) - Suc 0)" using a by simp
  qed
  finally show ?thesis .
qed

lemma uint_remap: "uint ((ucast (b :: 8 word) :: 16 word) - 128) = (uint b - 128) mod 2 ^ 16"
  by (simp add: uint_word_ariths uint_up_ucast is_up)

lemma one_byte_remap:
  "sint (np_abs_i32 (ucast ((ucast (b :: 8 word) :: 16 word) - 128))) =
     (if uint b < 128 then uint b + 65408 else uint b - 128)"
proof -
  let ?w16 = "(ucast b :: 16 word) - 128"
  let ?w = "ucast ?w16 :: 32 word"
  have b: "0 \<le> uint b" "uint b < 256" using uint_bounded [of b] by simp_all
  have u16: "uint ?w16 = (if uint b < 128 then uint b + 65408 else uint b - 128)"
  proof (cases "uint b < 128")
    case True
    have "(uint b - 128) mod 65536 = (uint b - 128 + 65536) mod 65536"
      by (simp only: mod_add_self2)
    also have "\<dots> = (uint b + 65408) mod 65536" by (simp add: add.commute)
    also have "\<dots> = uint b + 65408" using True b by simp
    finally show ?thesis using True by (simp add: uint_remap)
  next
    case False
    then show ?thesis using b by (simp add: uint_remap)
  qed
  have u32: "uint ?w = uint ?w16" by (simp add: uint_up_ucast is_up)
  have small: "uint ?w < 2 ^ 31" using u16 u32 b by (simp split: if_splits)
  have s: "sint ?w = uint ?w" using small by (rule sint_small)
  have "0 \<le> uint ?w" by simp
  with s have "\<not> sint ?w < 0" by simp
  then show ?thesis by (simp add: np_abs_i32_def s u32 u16)
qed

text \<open>
  C8 (for one-byte samples the amplitude of a constant buffer of value \<open>b\<close> is
  \<open>\<bar>b - 128\<bar>\<close>, the remapping to \<open>b - 128\<close> happening in a wider type without
  wrap-around). The source's comment says the same (``expand to 16-bit and change from
  [0..255] to [-128..127]''), but the wider type is unsigned: on a buffer of the
  constant 100 each value is 65508, where \<open>\<bar>100 - 128\<bar> = 28\<close>.
\<close>

theorem amplitude_one_byte_wraps:
  "amplitude two_frames quiet_wave = Inr [Some 65508, Some 65508]"
  by code_simp

section \<open>Properties of the aggregator\<close>

lemma np_max_Max: "temp \<noteq> [] \<Longrightarrow> np_max temp = Inr (Max (set temp))"
proof (cases temp)
  case Nil
  assume "temp \<noteq> []"
  with Nil show ?thesis by simp
next
  case (Cons x xs)
  have "Max (set (x # xs)) = fold max xs x" by (rule Max.set_eq_fold)
  then show ?thesis by (simp add: Cons)
qed

lemma temp_zero_pad:
  "length d \<le> base \<Longrightarrow> (if length d < base then np_resize d base else d) = zero_pad base d"
  by (simp add: np_resize_def zero_pad_def)

lemma length_zero_pad: "length d \<le> base \<Longrightarrow> length (zero_pad base d) = base"
  by (simp add: zero_pad_def)

lemma joint_loop_sum:
  assumes "0 < base" and "length result = base" and "\<forall>d\<in>set ds. length d \<le> base"
  shows "\<exists>r. joint_loop base ds result = Inr r \<and> length r = base
     \<and> (\<forall>k<base. r ! k =
           fold (\<lambda>x acc. np_add acc x) (map (\<lambda>d. peak_ratio (zero_pad base d) k) ds)
             (result ! k))"
  using assms(2,3)
proof (induction ds arbitrary: result)
  case Nil
  then show ?case by simp
next
  case (Cons d ds)
  let ?temp = "zero_pad base d"
  let ?m = "Max (set ?temp)"
  let ?result' = "map (\<lambda>(a, b). np_add a b) (zip result (np_divide ?temp ?m))"
  from Cons.prems have le: "length d \<le> base" by simp
  have len: "length ?temp = base" using le by (rule length_zero_pad)
  with assms(1) have ne: "?temp \<noteq> []" by auto
  have iadd: "np_iadd result (np_divide ?temp ?m) = Inr ?result'"
    using len Cons.prems(1) by (simp add: np_iadd_def np_divide_def)
  have step: "joint_loop base (d # ds) result = joint_loop base ds ?result'"
    by (simp add: temp_zero_pad [OF le] np_max_Max [OF ne] iadd Let_def)
  have len': "length ?result' = base"
    using len Cons.prems(1) by (simp add: np_divide_def)
  from Cons.prems have rest: "\<forall>d\<in>set ds. length d \<le> base" by simp
  from Cons.IH [OF len' rest] obtain r where
    r: "joint_loop base ds ?result' = Inr r" "length r = base"
    and nth: "\<forall>k<base. r ! k =
        fold (\<lambda>x acc. np_add acc x) (map (\<lambda>d. peak_ratio (zero_pad base d) k) ds)
          (?result' ! k)"
    by blast
  have first: "?result' ! k = np_add (result ! k) (peak_ratio ?temp k)" if "k < base" for k
    using that len Cons.prems(1) by (simp add: np_divide_def peak_ratio_def)
  show ?case
    using r nth by (simp add: step first del: joint_loop.simps)
qed

lemma joint_same_twice:
  assumes "s \<noteq> []" and "\<forall>x\<in>set s. 0 < x"
  shows "joint [s, s] = Inr (map (\<lambda>x. Some (2 * (x / Max (set s)))) s)"
proof -
  from assms have "Max (set s) \<in> set s" by (intro Max_in) auto
  with assms(2) have pos: "Max (set s) \<noteq> 0" by fastforce
  obtain x xs where s: "s = x # xs" using assms(1) by (cases s) auto
  have m: "np_max s = Inr (Max (set s))" using assms(1) by (rule np_max_Max)
  have "map (\<lambda>(a, b). np_add a b)
          (zip (map (\<lambda>(a, b). np_add a b)
                  (zip (replicate (length s) (Some 0)) (np_divide s (Max (set s)))))
             (np_divide s (Max (set s))))
        = map (\<lambda>x. Some (2 * (x / Max (set s)))) s"
    using pos by (intro nth_equalityI) (simp_all add: np_divide_def np_add_def)
  then show ?thesis
    using m by (simp add: joint_def s [symmetric] np_iadd_def np_divide_def)
qed

text \<open>
  C6 (\<^verbatim>\<open>joint\<close> returns a sequence as long as the first input, the sum of the
  inputs each divided by its maximum, shorter inputs filled up with zeros; twice the
  same positive input gives \<open>2 * (s / max s)\<close>). Here for a first input that is not
  empty; the maximum is the one of the input after the zeros were added, and a
  maximum of 0 gives values that are not finite.
\<close>

theorem joint_sum_of_ratios:
  assumes "d0 \<noteq> []" and "\<forall>d\<in>set ds. length d \<le> length d0"
  shows "(\<exists>r. joint (d0 # ds) = Inr r \<and> length r = length d0
            \<and> (\<forall>k<length d0. r ! k =
                  npfloat_sum (map (\<lambda>d. peak_ratio (zero_pad (length d0) d) k) (d0 # ds))))
     \<and> ((\<forall>x\<in>set d0. 0 < x)
          \<longrightarrow> joint [d0, d0] = Inr (map (\<lambda>x. Some (2 * (x / Max (set d0)))) d0))"
proof (intro conjI impI)
  have pos: "0 < length d0" using assms(1) by simp
  have all: "\<forall>d\<in>set (d0 # ds). length d \<le> length d0" using assms(2) by simp
  from joint_loop_sum [OF pos _ all, of "replicate (length d0) (Some 0)"]
  show "\<exists>r. joint (d0 # ds) = Inr r \<and> length r = length d0
            \<and> (\<forall>k<length d0. r ! k =
                  npfloat_sum (map (\<lambda>d. peak_ratio (zero_pad (length d0) d) k) (d0 # ds)))"
    by (simp add: joint_def npfloat_sum_def)
next
  assume "\<forall>x\<in>set d0. 0 < x"
  with assms(1) show "joint [d0, d0] = Inr (map (\<lambda>x. Some (2 * (x / Max (set d0)))) d0)"
    by (rule joint_same_twice)
qed

theorem joint_sum_of_ratios_witness:
  "\<exists>r. joint [[1, 2, 4], [2]] = Inr r \<and> length r = 3 \<and> r ! 0 = Some (5 / 4)
     \<and> joint [[1, 2, 4], [1, 2, 4]] = Inr [Some (1 / 2), Some 1, Some 2]"
proof -
  have ne: "[1, 2, 4 :: real] \<noteq> []" by simp
  have le: "\<forall>d\<in>set [[2 :: real]]. length d \<le> length [1, 2, 4 :: real]" by simp
  note t = joint_sum_of_ratios [OF ne le]
  from t obtain r where r: "joint [[1, 2, 4], [2]] = Inr r" "length r = 3"
    and nth: "\<forall>k<length [1, 2, 4 :: real]. r ! k =
       npfloat_sum (map (\<lambda>d. peak_ratio (zero_pad (length [1, 2, 4 :: real]) d) k)
                      [[1, 2, 4], [2]])"
    by auto
  from nth have "r ! 0 = Some (5 / 4)"
    by (auto simp: npfloat_sum_def peak_ratio_def zero_pad_def np_add_def numeral_3_eq_3
        dest!: spec [of _ 0])
  moreover from t have "joint [[1, 2, 4], [1, 2, 4]] = Inr [Some (1 / 2), Some 1, Some 2]"
    by simp
  ultimately show ?thesis using r by blast
qed

text \<open>
  With an empty first input \<^verbatim>\<open>np.max\<close> raises. With a shorter input of negative
  values only, the maximum after filling up is 0 and not the input's own maximum.
\<close>

theorem joint_empty_first_raises:
  "joint [[]] = Inl ValueError
   \<and> joint [[1, 1, 1], [- 1, - 2]] = Inr [None, None, None]"
  by (simp add: joint_def np_resize_def np_iadd_def np_divide_def np_add_def)

lemma joint_loop_longer:
  assumes "0 < base"
  shows "length result = base \<Longrightarrow> \<exists>d\<in>set ds. base < length d
     \<Longrightarrow> joint_loop base ds result = Inl ValueError"
proof (induction ds arbitrary: result)
  case Nil
  then show ?case by simp
next
  case (Cons d ds)
  show ?case
  proof (cases "base < length d")
    case True
    with assms have ne: "d \<noteq> []" by auto
    from True assms have "length d \<noteq> 1" by simp
    with True Cons.prems(1) show ?thesis
      by (simp add: np_max_Max [OF ne] np_iadd_def np_divide_def)
  next
    case False
    then have le: "length d \<le> base" by simp
    let ?temp = "zero_pad base d"
    let ?m = "Max (set ?temp)"
    let ?result' = "map (\<lambda>(a, b). np_add a b) (zip result (np_divide ?temp ?m))"
    have len: "length ?temp = base" using le by (rule length_zero_pad)
    with assms have ne: "?temp \<noteq> []" by auto
    have iadd: "np_iadd result (np_divide ?temp ?m) = Inr ?result'"
      using len Cons.prems(1) by (simp add: np_iadd_def np_divide_def)
    have step: "joint_loop base (d # ds) result = joint_loop base ds ?result'"
      by (simp add: temp_zero_pad [OF le] np_max_Max [OF ne] iadd Let_def)
    have len': "length ?result' = base"
      using len Cons.prems(1) by (simp add: np_divide_def)
    from Cons.prems(2) False have "\<exists>d\<in>set ds. base < length d" by auto
    from Cons.IH [OF len' this] show ?thesis by (simp add: step del: joint_loop.simps)
  qed
qed

text \<open>
  C10 (when an input after the first is strictly longer than the first, \<^verbatim>\<open>joint\<close>
  raises: only shorter inputs are resized, and the longer array does not broadcast
  into the result).
\<close>

theorem joint_longer_raises:
  assumes "\<exists>d\<in>set ds. length d0 < length d"
  shows "joint (d0 # ds) = Inl ValueError"
proof (cases "d0 = []")
  case True
  then show ?thesis by (simp add: joint_def)
next
  case False
  then have pos: "0 < length d0" by simp
  from assms have "\<exists>d\<in>set (d0 # ds). length d0 < length d" by auto
  from joint_loop_longer [OF pos _ this, of "replicate (length d0) (Some 0)"]
  show ?thesis by (simp add: joint_def)
qed

theorem joint_longer_raises_witness:
  "joint [[1, 2, 4], [1, 2, 3, 4]] = Inl ValueError"
  using joint_longer_raises [of "[[1, 2, 3, 4]]" "[1, 2, 4]"] by simp

end
